theory Spec2Isabelle
  imports Complex_Main
begin

section \<open>Python values used by \<open>src/app.py\<close>\<close>

text \<open>
  Exceptions are values. The payload of each constructor is what \<open>str(e)\<close> returns.
  \<open>OtherException\<close> stands for any subclass of \<open>Exception\<close> that is not an
  \<open>IndexError\<close>, \<open>KeyError\<close> or \<open>ValueError\<close>.
\<close>

datatype py_exn =
    IndexError string
  | KeyError string
  | ValueError string
  | OtherException string

fun exn_str :: "py_exn \<Rightarrow> string" where
  "exn_str (IndexError m) = m"
| "exn_str (KeyError m) = m"
| "exn_str (ValueError m) = m"
| "exn_str (OtherException m) = m"

fun is_IndexError :: "py_exn \<Rightarrow> bool" where
  "is_IndexError (IndexError m) = True"
| "is_IndexError e = False"

subsection \<open>\<open>str.split()\<close> and \<open>" ".join\<close>\<close>

text \<open>
  A character of the model is a code point below 256. \<open>str.split()\<close> without argument
  splits at runs of characters for which \<open>str.isspace\<close> holds; below 256 these are
  U+0009..U+000D, U+001C..U+001F, U+0020, U+0085 and U+00A0.
\<close>

definition whitespace :: "char list" where
  "whitespace = [CHR 0x09, CHR 0x0A, CHR 0x0B, CHR 0x0C, CHR 0x0D,
                 CHR 0x1C, CHR 0x1D, CHR 0x1E, CHR 0x1F, CHR 0x20, CHR 0x85, CHR 0xA0]"

definition is_space :: "char \<Rightarrow> bool" where
  "is_space c = (c \<in> set whitespace)"

text \<open>
  \<open>split_acc s cur\<close> scans \<open>s\<close> with the word under construction \<open>cur\<close>; a word ends
  at a whitespace character or at the end of the string, and empty words are dropped.
\<close>

fun split_acc :: "string \<Rightarrow> string \<Rightarrow> string list" where
  "split_acc [] cur = (if cur = [] then [] else [cur])"
| "split_acc (c # cs) cur =
     (if is_space c then (if cur = [] then split_acc cs [] else cur # split_acc cs [])
      else split_acc cs (cur @ [c]))"

definition split_ws :: "string \<Rightarrow> string list" where
  "split_ws s = split_acc s []"

fun join_sp :: "string list \<Rightarrow> string" where
  "join_sp [] = []"
| "join_sp [w] = w"
| "join_sp (w # v # ws) = w @ CHR '' '' # join_sp (v # ws)"

definition endswith_dot :: "string \<Rightarrow> bool" where
  "endswith_dot s = (s \<noteq> [] \<and> last s = CHR ''.'')"

subsection \<open>\<open>range\<close> and slicing\<close>

function range_up :: "int \<Rightarrow> int \<Rightarrow> int \<Rightarrow> int list" where
  "range_up i stop step = (if 0 < step \<and> i < stop then i # range_up (i + step) stop step else [])"
  by pat_completeness auto
termination
  by (relation "measure (\<lambda>(i, stop, step). nat (stop - i))") auto

function range_down :: "int \<Rightarrow> int \<Rightarrow> int \<Rightarrow> int list" where
  "range_down i stop step = (if step < 0 \<and> stop < i then i # range_down (i + step) stop step else [])"
  by pat_completeness auto
termination
  by (relation "measure (\<lambda>(i, stop, step). nat (i - stop))") auto

declare range_up.simps [simp del] range_down.simps [simp del]

text \<open>\<open>range(start, stop, step)\<close>, listed; a zero step raises \<open>ValueError\<close>.\<close>

definition py_range :: "int \<Rightarrow> int \<Rightarrow> int \<Rightarrow> py_exn + int list" where
  "py_range start stop step =
     (if step = 0 then Inl (ValueError ''range() arg 3 must not be zero'')
      else if 0 < step then Inr (range_up start stop step)
      else Inr (range_down start stop step))"

text \<open>
  \<open>xs[i:j]\<close>: a negative index counts from the end, both indices are clamped to the
  list, and the slice is empty when the upper index is not above the lower one.
\<close>

definition py_slice :: "'a list \<Rightarrow> int \<Rightarrow> int \<Rightarrow> 'a list" where
  "py_slice xs i j =
     (let n = int (length xs);
          lo = (if i < 0 then max (i + n) 0 else min i n);
          hi = (if j < 0 then max (j + n) 0 else min j n)
      in take (nat (hi - lo)) (drop (nat lo) xs))"

section \<open>The chunker (\<open>chunk_text\<close>, lines 65 to 68)\<close>

text \<open>
  The generator is modelled by the list of everything it yields; the \<open>ValueError\<close> of
  \<open>range\<close> is raised when the generator is first advanced.
\<close>

definition chunk_text :: "string \<Rightarrow> int \<Rightarrow> int \<Rightarrow> py_exn + string list" where
  "chunk_text txt max_words overlap =
     (let words = split_ws txt in
      case py_range 0 (int (length words)) (max_words - overlap) of
        Inl e \<Rightarrow> Inl e
      | Inr starts \<Rightarrow> Inr (map (\<lambda>i. join_sp (py_slice words i (i + max_words))) starts))"

text \<open>The text positions that the slice \<open>words[i:i + max_words]\<close> of a text of \<open>n\<close> words reads.\<close>

definition window :: "nat \<Rightarrow> nat \<Rightarrow> nat \<Rightarrow> nat set" where
  "window n i max_words = {i ..< min (i + max_words) n}"

section \<open>Length presets (lines 107 to 111)\<close>

definition length_presets :: "(string \<times> (int \<times> int)) list" where
  "length_presets = [(''short'', (15, 30)), (''medium'', (50, 100)), (''long'', (100, 180))]"

text \<open>\<open>{...}.get(length, (50, 100))\<close>; the pair is \<open>(preset_min, preset_max)\<close>.\<close>

definition preset_for :: "string \<Rightarrow> int \<times> int" where
  "preset_for len = (case map_of length_presets len of Some p \<Rightarrow> p | None \<Rightarrow> (50, 100))"

section \<open>Collaborators and state\<close>

text \<open>
  Keyword arguments of a call of the summarization capability. An argument that a call
  does not pass is \<open>None\<close>. The float literals \<open>1.2\<close>, \<open>0.9\<close> and \<open>0.95\<close> are
  modelled by their decimal values; the service only passes them on.
\<close>

record gen_kwargs =
  max_length :: int
  min_length :: int
  num_beams :: "int option"
  do_sample :: bool
  temperature :: "real option"
  top_k :: "int option"
  top_p :: "real option"

text \<open>\<open>SummaryRecord\<close> (lines 49 to 55); the fields are \<open>text\<close>, \<open>summary\<close>, \<open>title\<close>,
  \<open>createdAt\<close>, \<open>success\<close>, \<open>error\<close>.\<close>

record summary_record =
  sr_text :: string
  sr_summary :: string
  sr_title :: string
  sr_createdAt :: nat
  sr_success :: bool
  sr_error :: string

text \<open>The capability returns a list of dictionaries, each an association list.\<close>

type_synonym summarizer_result = "(string \<times> string) list list"

text \<open>
  The collaborators are module-level globals of the service. Each one reads and changes
  a hidden state \<open>'w\<close> (the model's random generator, the clock, the connection), and may
  raise. \<open>record_save\<close> is \<open>SummaryRecord.save\<close>: \<open>None\<close> means that it returned.
\<close>

record 'w env =
  tokenizer_encode :: "string \<Rightarrow> 'w \<Rightarrow> (py_exn + int list) \<times> 'w"
  summarizer :: "string \<Rightarrow> gen_kwargs \<Rightarrow> 'w \<Rightarrow> (py_exn + summarizer_result) \<times> 'w"
  record_save :: "summary_record \<Rightarrow> 'w \<Rightarrow> py_exn option \<times> 'w"
  utcnow :: "'w \<Rightarrow> nat"

text \<open>Every call of a collaborator is logged with its arguments and its outcome.\<close>

datatype call =
    Encode string "py_exn + int list"
  | Summarizer string gen_kwargs "py_exn + summarizer_result"
  | Save summary_record "py_exn option"

text \<open>
  The state of a run: the hidden state of the collaborators, the stored documents and
  the log of calls (a ghost variable). A record is stored exactly when \<open>save\<close> returns.
\<close>

record 'w state =
  world :: 'w
  db :: "summary_record list"
  calls :: "call list"

definition call_encode :: "'w env \<Rightarrow> string \<Rightarrow> 'w state \<Rightarrow> (py_exn + int list) \<times> 'w state" where
  "call_encode env txt st =
     (case tokenizer_encode env txt (world st) of
        (r, w') \<Rightarrow> (r, st\<lparr>world := w', calls := calls st @ [Encode txt r]\<rparr>))"

definition call_summarizer ::
    "'w env \<Rightarrow> string \<Rightarrow> gen_kwargs \<Rightarrow> 'w state \<Rightarrow> (py_exn + summarizer_result) \<times> 'w state" where
  "call_summarizer env txt kw st =
     (case summarizer env txt kw (world st) of
        (r, w') \<Rightarrow> (r, st\<lparr>world := w', calls := calls st @ [Summarizer txt kw r]\<rparr>))"

definition call_save :: "'w env \<Rightarrow> summary_record \<Rightarrow> 'w state \<Rightarrow> py_exn option \<times> 'w state" where
  "call_save env r st =
     (case record_save env r (world st) of
        (None, w') \<Rightarrow> (None, st\<lparr>world := w', db := db st @ [r], calls := calls st @ [Save r None]\<rparr>)
      | (Some e, w') \<Rightarrow> (Some e, st\<lparr>world := w', calls := calls st @ [Save r (Some e)]\<rparr>))"

text \<open>\<open>result[0]["summary_text"]\<close>.\<close>

definition first_summary_text :: "summarizer_result \<Rightarrow> py_exn + string" where
  "first_summary_text res =
     (case res of
        [] \<Rightarrow> Inl (IndexError ''list index out of range'')
      | d # _ \<Rightarrow> (case map_of d ''summary_text'' of
                    None \<Rightarrow> Inl (KeyError (CHR 0x27 # ''summary_text'' @ [CHR 0x27]))
                  | Some s \<Rightarrow> Inr s))"

text \<open>
  What \<open>summarizer(...)[0]["summary_text"]\<close> evaluates to, given the outcome of the
  call: an exception of the call propagates, otherwise the result is indexed.
\<close>

definition outcome_text :: "py_exn + summarizer_result \<Rightarrow> py_exn + string" where
  "outcome_text r = (case r of Inl e \<Rightarrow> Inl e | Inr res \<Rightarrow> first_summary_text res)"

definition summarizer_text ::
    "'w env \<Rightarrow> string \<Rightarrow> gen_kwargs \<Rightarrow> 'w state \<Rightarrow> (py_exn + string) \<times> 'w state" where
  "summarizer_text env txt kw st =
     (case call_summarizer env txt kw st of (r, st') \<Rightarrow> (outcome_text r, st'))"

section \<open>The pipeline\<close>

text \<open>\<open>summarize_combined_chunks\<close> (lines 71 to 83).\<close>

definition summarize_combined_chunks ::
    "'w env \<Rightarrow> string list \<Rightarrow> int \<Rightarrow> int \<Rightarrow> string \<Rightarrow> 'w state \<Rightarrow> (py_exn + string) \<times> 'w state" where
  "summarize_combined_chunks env chunks preset_max preset_min mode st =
     (let combined_summary = join_sp chunks in
      summarizer_text env combined_summary
        \<lparr>max_length = preset_max, min_length = preset_min, num_beams = Some 5,
         do_sample = (if mode = ''creative'' then True else False),
         temperature = Some 1.2, top_k = Some 100, top_p = Some 0.95\<rparr> st)"

text \<open>
  The list comprehension of line 123: the chunks are summarized in order, and the first
  exception ends the loop.
\<close>

fun summarize_partials ::
    "'w env \<Rightarrow> string list \<Rightarrow> int \<Rightarrow> int \<Rightarrow> 'w state \<Rightarrow> (py_exn + string list) \<times> 'w state" where
  "summarize_partials env [] preset_max preset_min st = (Inr [], st)"
| "summarize_partials env (chunk # chunks) preset_max preset_min st =
     (case summarizer_text env chunk
             \<lparr>max_length = preset_max, min_length = preset_min, num_beams = None,
              do_sample = False, temperature = None, top_k = None, top_p = None\<rparr> st of
        (Inl e, st') \<Rightarrow> (Inl e, st')
      | (Inr s, st') \<Rightarrow>
          (case summarize_partials env chunks preset_max preset_min st' of
             (Inl e, st'') \<Rightarrow> (Inl e, st'')
           | (Inr ss, st'') \<Rightarrow> (Inr (s # ss), st'')))"

definition MAX_TOKENS :: nat where
  "MAX_TOKENS = 1024"

text \<open>
  Lines 114 to 138 of \<open>summarize\<close>: the token count, then the chunked or the direct
  path. The result is \<open>(summary, input_tokens)\<close>.
\<close>

definition pipeline ::
    "'w env \<Rightarrow> string \<Rightarrow> int \<Rightarrow> int \<Rightarrow> string \<Rightarrow> 'w state \<Rightarrow> (py_exn + string \<times> nat) \<times> 'w state" where
  "pipeline env txt preset_min preset_max mode st =
     (case call_encode env txt st of
        (Inl e, st1) \<Rightarrow> (Inl e, st1)
      | (Inr toks, st1) \<Rightarrow>
          (let input_tokens = length toks in
           if input_tokens > MAX_TOKENS then
             (case chunk_text txt 700 100 of
                Inl e \<Rightarrow> (Inl e, st1)
              | Inr chunks \<Rightarrow>
                  (case summarize_partials env chunks preset_max preset_min st1 of
                     (Inl e, st2) \<Rightarrow> (Inl e, st2)
                   | (Inr partials, st2) \<Rightarrow>
                       (case summarize_combined_chunks env partials preset_max preset_min mode st2 of
                          (Inl e, st3) \<Rightarrow> (Inl e, st3)
                        | (Inr summary, st3) \<Rightarrow> (Inr (summary, input_tokens), st3))))
           else
             (case summarizer_text env txt
                     \<lparr>max_length = preset_max, min_length = preset_min, num_beams = Some 5,
                      do_sample = (if mode = ''creative'' then True else False),
                      temperature = Some 1.2, top_k = Some 50, top_p = Some 0.9\<rparr> st1 of
                (Inl e, st2) \<Rightarrow> (Inl e, st2)
              | (Inr summary, st2) \<Rightarrow> (Inr (summary, input_tokens), st2))))"

section \<open>Title (lines 141 to 145)\<close>

definition make_title :: "string \<Rightarrow> string" where
  "make_title summary =
     (let title = join_sp (take 12 (split_ws summary));
          title = (if title = [] then ''Untitled Summary'' else title);
          title = (if \<not> endswith_dot title then title @ ''...'' else title)
      in title)"

section \<open>The request handler (\<open>summarize\<close>, lines 88 to 178)\<close>

text \<open>
  The JSON body is an object whose fields \<open>text\<close>, \<open>length\<close> and \<open>mode\<close> are strings
  when present (\<open>None\<close>: the field is absent). The logging calls are left out.
\<close>

record request =
  req_text :: "string option"
  req_length :: "string option"
  req_mode :: "string option"

datatype json = JBool bool | JStr string | JInt int

type_synonym response = "nat \<times> (string \<times> json) list"

text \<open>The body of the \<open>try\<close> block, lines 107 to 167.\<close>

definition try_body ::
    "'w env \<Rightarrow> string \<Rightarrow> string \<Rightarrow> string \<Rightarrow> 'w state \<Rightarrow> (py_exn + response) \<times> 'w state" where
  "try_body env txt len mode st =
     (case preset_for len of (preset_min, preset_max) \<Rightarrow>
      (case pipeline env txt preset_min preset_max mode st of
         (Inl e, st1) \<Rightarrow> (Inl e, st1)
       | (Inr (summary, input_tokens), st1) \<Rightarrow>
           (let title = make_title summary;
                summary_record = \<lparr>sr_text = txt, sr_summary = summary, sr_title = title,
                                  sr_createdAt = utcnow env (world st1), sr_success = True,
                                  sr_error = []\<rparr>
            in case call_save env summary_record st1 of
                 (Some e, st2) \<Rightarrow> (Inl e, st2)
               | (None, st2) \<Rightarrow>
                   (Inr (200, [(''title'', JStr title),
                               (''summary'', JStr summary),
                               (''original_length'', JInt (int (length (split_ws txt)))),
                               (''summary_length'', JInt (int (length (split_ws summary)))),
                               (''token_count'', JInt (int input_tokens))]), st2))))"

definition summarize :: "'w env \<Rightarrow> request \<Rightarrow> 'w state \<Rightarrow> response \<times> 'w state" where
  "summarize env data st =
     (let txt = (case req_text data of None \<Rightarrow> [] | Some t \<Rightarrow> t);
          len = (case req_length data of None \<Rightarrow> ''medium'' | Some l \<Rightarrow> l);
          mode = (case req_mode data of None \<Rightarrow> ''reliable'' | Some m \<Rightarrow> m)
      in if txt = [] then
           ((400, [(''ok'', JBool False), (''error'', JStr ''Input text is required.'')]), st)
         else
           (case try_body env txt len mode st of
              (Inr resp, st') \<Rightarrow> (resp, st')
            | (Inl e, st') \<Rightarrow>
                (if is_IndexError e then
                   ((500, [(''error'', JStr ''Index error during summarization.'')]), st')
                 else ((500, [(''error'', JStr (exn_str e))]), st'))))"

text \<open>The calls that a run from \<open>st\<close> to \<open>st'\<close> added to the log.\<close>

definition new_calls :: "'w state \<Rightarrow> 'w state \<Rightarrow> call list" where
  "new_calls st st' = drop (length (calls st)) (calls st')"

text \<open>
  The calls of the summarization capability in a log, in order: the input text, the
  keyword arguments, and what \<open>[0]["summary_text"]\<close> made of the outcome.
\<close>

fun summarizer_calls :: "call list \<Rightarrow> (string \<times> gen_kwargs \<times> (py_exn + string)) list" where
  "summarizer_calls [] = []"
| "summarizer_calls (Summarizer t kw r # cs) = (t, kw, outcome_text r) # summarizer_calls cs"
| "summarizer_calls (Encode t r # cs) = summarizer_calls cs"
| "summarizer_calls (Save d r # cs) = summarizer_calls cs"

fun is_Encode :: "call \<Rightarrow> bool" where
  "is_Encode (Encode t r) = True"
| "is_Encode c = False"

fun is_Save :: "call \<Rightarrow> bool" where
  "is_Save (Save d r) = True"
| "is_Save c = False"

text \<open>
  Names for the keyword arguments of the three kinds of call: of a chunk (line 123), of the
  direct path (lines 129 to 138), and of \<open>summarize_combined_chunks\<close> (lines 73 to 82).
\<close>

definition first_pass_kwargs :: "int \<Rightarrow> int \<Rightarrow> gen_kwargs" where
  "first_pass_kwargs preset_max preset_min =
     \<lparr>max_length = preset_max, min_length = preset_min, num_beams = None,
      do_sample = False, temperature = None, top_k = None, top_p = None\<rparr>"

definition direct_kwargs :: "int \<Rightarrow> int \<Rightarrow> string \<Rightarrow> gen_kwargs" where
  "direct_kwargs preset_max preset_min mode =
     \<lparr>max_length = preset_max, min_length = preset_min, num_beams = Some 5,
      do_sample = (mode = ''creative''), temperature = Some 1.2, top_k = Some 50,
      top_p = Some 0.9\<rparr>"

definition combined_kwargs :: "int \<Rightarrow> int \<Rightarrow> string \<Rightarrow> gen_kwargs" where
  "combined_kwargs preset_max preset_min mode =
     \<lparr>max_length = preset_max, min_length = preset_min, num_beams = Some 5,
      do_sample = (mode = ''creative''), temperature = Some 1.2, top_k = Some 100,
      top_p = Some 0.95\<rparr>"

text \<open>
  Names for parts of \<open>summarize\<close>: the defaults of lines 91 and 92, the two error
  responses of lines 169 to 175 in one, the body of the success response (lines 161 to
  167) and the stored record (lines 148 to 154).
\<close>

definition request_length :: "request \<Rightarrow> string" where
  "request_length data = (case req_length data of None \<Rightarrow> ''medium'' | Some l \<Rightarrow> l)"

definition request_mode :: "request \<Rightarrow> string" where
  "request_mode data = (case req_mode data of None \<Rightarrow> ''reliable'' | Some m \<Rightarrow> m)"

definition error_response :: "py_exn \<Rightarrow> response" where
  "error_response e =
     (500, [(''error'', JStr (if is_IndexError e then ''Index error during summarization.''
                              else exn_str e))])"

definition success_body :: "string \<Rightarrow> string \<Rightarrow> nat \<Rightarrow> (string \<times> json) list" where
  "success_body t s n =
     [(''title'', JStr (make_title s)), (''summary'', JStr s),
      (''original_length'', JInt (int (length (split_ws t)))),
      (''summary_length'', JInt (int (length (split_ws s)))),
      (''token_count'', JInt (int n))]"

definition new_record :: "'w env \<Rightarrow> string \<Rightarrow> string \<Rightarrow> 'w state \<Rightarrow> summary_record" where
  "new_record env t s st =
     \<lparr>sr_text = t, sr_summary = s, sr_title = make_title s,
      sr_createdAt = utcnow env (world st), sr_success = True, sr_error = []\<rparr>"

section \<open>Stub collaborators for concrete runs\<close>

text \<open>
  A deterministic stand-in for the collaborators: the tokenizer yields \<open>per_word\<close>
  tokens for every word, the summarizer answers with the first three words of its
  input, \<open>save\<close> succeeds, and the hidden state counts the calls and serves as clock.
\<close>

definition stub_env :: "nat \<Rightarrow> nat env" where
  "stub_env per_word =
     \<lparr>tokenizer_encode = (\<lambda>t w. (Inr (concat (map (\<lambda>u. replicate per_word 0) (split_ws t))), Suc w)),
      summarizer = (\<lambda>t kw w. (Inr [[(''summary_text'', join_sp (take 3 (split_ws t)))]], Suc w)),
      record_save = (\<lambda>r w. (None, Suc w)),
      utcnow = (\<lambda>w. w)\<rparr>"

definition init_state :: "nat state" where
  "init_state = \<lparr>world = 0, db = [], calls = []\<rparr>"

text \<open>
  The same collaborators, except that every call of the summarizer has the outcome \<open>out\<close>:
  an exception that it raises, or the list that it returns.
\<close>

definition fixed_env :: "py_exn + summarizer_result \<Rightarrow> nat env" where
  "fixed_env out = (stub_env 1)\<lparr>summarizer := (\<lambda>t kw w. (out, Suc w))\<rparr>"

text \<open>
  A summarizer that samples: with \<open>do_sample\<close> its answer depends on the hidden state (it
  keeps as many words as calls were made before, plus one), without it the answer is the
  first three words of the input.
\<close>

definition sampling_env :: "nat env" where
  "sampling_env =
     (stub_env 1)\<lparr>summarizer := (\<lambda>t kw w.
        (Inr [[(''summary_text'',
                join_sp (take (if do_sample kw then Suc w else 3) (split_ws t)))]], Suc w))\<rparr>"

text \<open>
  The capability is deterministic: when it is called without sampling, its outcome is a
  function of the input text and the keyword arguments, whatever the hidden state.
\<close>

definition deterministic_capability :: "'w env \<Rightarrow> bool" where
  "deterministic_capability env =
     (\<forall>t kw w w'. \<not> do_sample kw \<longrightarrow>
        fst (summarizer env t kw w) = fst (summarizer env t kw w'))"

text \<open>A word as \<open>str.split()\<close> produces it: not empty, and free of whitespace.\<close>

definition good_word :: "string \<Rightarrow> bool" where
  "good_word w = (w \<noteq> [] \<and> list_all (\<lambda>c. \<not> is_space c) w)"

section \<open>Splitting and joining\<close>

lemma is_space_blank [simp]: "is_space (CHR '' '')"
  by (simp add: is_space_def whitespace_def)

lemma split_acc_word:
  "list_all (\<lambda>c. \<not> is_space c) w \<Longrightarrow> split_acc (w @ s) cur = split_acc s (cur @ w)"
  by (induction w arbitrary: cur) simp_all

lemma split_acc_good:
  "list_all (\<lambda>c. \<not> is_space c) cur \<Longrightarrow> list_all good_word (split_acc s cur)"
  by (induction s cur rule: split_acc.induct) (simp_all add: good_word_def)

lemma split_ws_good: "list_all good_word (split_ws s)"
  using split_acc_good [of "[]" s] by (simp add: split_ws_def)

lemma split_join_suffix:
  "list_all good_word (w # ws) \<Longrightarrow> list_all (\<lambda>c. \<not> is_space c) x \<Longrightarrow>
   split_acc (join_sp (w # ws) @ x) [] = butlast (w # ws) @ [last (w # ws) @ x]"
proof (induction ws arbitrary: w)
  case Nil
  then show ?case
    using split_acc_word [of w x "[]"] split_acc_word [of x "[]" w]
    by (simp add: good_word_def)
next
  case (Cons v vs)
  have w: "list_all (\<lambda>c. \<not> is_space c) w" "w \<noteq> []"
    using Cons.prems(1) by (simp_all add: good_word_def)
  have "split_acc (join_sp (w # v # vs) @ x) [] = split_acc (CHR '' '' # join_sp (v # vs) @ x) w"
    using split_acc_word [OF w(1), of "CHR '' '' # join_sp (v # vs) @ x" "[]"] by simp
  also have "\<dots> = w # split_acc (join_sp (v # vs) @ x) []"
    using w(2) by simp
  also have "\<dots> = w # butlast (v # vs) @ [last (v # vs) @ x]"
    using Cons.IH [of v] Cons.prems by simp
  finally show ?case by simp
qed

lemma split_join: "list_all good_word ws \<Longrightarrow> split_ws (join_sp ws) = ws"
proof (cases ws)
  case Nil
  then show ?thesis by (simp add: split_ws_def)
next
  case (Cons w vs)
  assume "list_all good_word ws"
  then show ?thesis
    using split_join_suffix [of w vs "[]"] Cons
    by (simp add: split_ws_def del: butlast.simps last.simps)
qed

section \<open>The chunker\<close>

lemma div_small: "0 < (step::int) \<Longrightarrow> a < step \<Longrightarrow> a div step \<le> 0"
  using zdiv_mono1 [of a "step - 1" step] by (simp add: div_pos_pos_trivial)

lemma range_up_closed:
  "0 < step \<Longrightarrow>
   range_up i stop step = map (\<lambda>k. i + int k * step) [0..<nat ((stop - i + step - 1) div step)]"
proof (induction i stop step rule: range_up.induct)
  case (1 i stop step)
  show ?case
  proof (cases "i < stop")
    case False
    then have "(stop - i + step - 1) div step \<le> 0"
      using "1.prems" by (intro div_small) simp_all
    then show ?thesis
      using False by (simp add: range_up.simps [of i stop step])
  next
    case True
    define m where "m = nat ((stop - (i + step) + step - 1) div step)"
    have "(stop - i + step - 1) div step = ((stop - (i + step) + step - 1) + step) div step"
      by (simp add: algebra_simps)
    also have "\<dots> = (stop - (i + step) + step - 1) div step + 1"
      using "1.prems" by simp
    finally have d: "(stop - i + step - 1) div step = (stop - (i + step) + step - 1) div step + 1" .
    have nn: "0 \<le> (stop - (i + step) + step - 1) div step"
      using True "1.prems" by (simp add: pos_imp_zdiv_nonneg_iff)
    have cnt: "nat ((stop - i + step - 1) div step) = Suc m"
      using d nn by (simp add: m_def nat_add_distrib)
    have "range_up i stop step = i # range_up (i + step) stop step"
      using True "1.prems" by (simp add: range_up.simps [of i stop step])
    also have "\<dots> = i # map (\<lambda>k. (i + step) + int k * step) [0..<m]"
      using "1.IH" True "1.prems" by (simp add: m_def)
    also have "\<dots> = map (\<lambda>k. i + int k * step) [0..<Suc m]"
      by (simp add: upt_conv_Cons map_Suc_upt [symmetric] algebra_simps del: upt_Suc)
    finally show ?thesis by (simp only: cnt)
  qed
qed

lemma py_slice_window:
  "0 \<le> i \<Longrightarrow> 0 \<le> m \<Longrightarrow> py_slice xs i (i + m) = take (nat m) (drop (nat i) xs)"
  by (auto simp: py_slice_def Let_def min_def max_def)


lemma count_less_iff:
  "0 < S \<Longrightarrow> k < (n + S - 1) div S \<longleftrightarrow> k * S < (n::nat)"
proof -
  assume S: "0 < S"
  have "k < (n + S - 1) div S \<longleftrightarrow> Suc k \<le> (n + S - 1) div S" by auto
  also have "\<dots> \<longleftrightarrow> Suc k * S \<le> n + S - 1"
    using S by (simp only: less_eq_div_iff_mult_less_eq)
  also have "\<dots> \<longleftrightarrow> k * S < n"
    using S by (cases S) auto
  finally show ?thesis .
qed

lemma chunk_text_closed:
  assumes "0 \<le> overlap" "overlap < max_words"
  shows "chunk_text txt max_words overlap =
         Inr (map (\<lambda>k. join_sp (take (nat max_words)
                     (drop (k * nat (max_words - overlap)) (split_ws txt))))
               [0..<(length (split_ws txt) + nat (max_words - overlap) - 1)
                      div nat (max_words - overlap)])"
proof -
  define step where "step = max_words - overlap"
  define n where "n = length (split_ws txt)"
  have step: "0 < step" using assms by (simp add: step_def)
  have "(int n + step - 1) div step = int ((n + nat step - 1) div nat step)"
    using step by (simp add: zdiv_int nat_diff_distrib' of_nat_diff)
  then have cnt: "nat ((int n + step - 1) div step) = (n + nat step - 1) div nat step"
    by simp
  have sl: "py_slice (split_ws txt) (int k * step) (int k * step + max_words) =
            take (nat max_words) (drop (k * nat step) (split_ws txt))" for k
    using py_slice_window [of "int k * step" max_words "split_ws txt"] step assms
    by (simp add: nat_mult_distrib)
  show ?thesis
    using step
    by (simp add: chunk_text_def py_range_def range_up_closed cnt sl o_def
        flip: step_def n_def)
qed

lemma take_drop_nth: "take m (drop i xs) = map ((!) xs) [i..<min (i + m) (length xs)]"
  by (auto simp: list_eq_iff_nth_eq min_def)

lemma list_all_take_drop: "list_all P xs \<Longrightarrow> list_all P (take m (drop i xs))"
  by (auto simp: list_all_iff dest: in_set_takeD in_set_dropD)

lemma split_join_window:
  "split_ws (join_sp (take m (drop i (split_ws txt)))) = take m (drop i (split_ws txt))"
  by (rule split_join) (rule list_all_take_drop, rule split_ws_good)

lemma window_overlap:
  assumes "S + ov = M" "a + S < n"
  shows "card (window n a M \<inter> window n (a + S) M) = min ov (min M (n - (a + S)))"
  using assms by (auto simp: window_def min_def)

lemma chunk_text_example:
  "chunk_text ''a b c d e'' 3 1 = Inr [''a b c'', ''c d e'', ''e''] \<and>
   length (split_ws ''a b c d e'') = 5"
  by code_simp

text \<open>
  Claim C2, as the code has it. For \<open>0 \<le> overlap < max_words\<close> the chunker returns
  \<open>ceil(n / (max_words - overlap))\<close> chunks for a text of \<open>n\<close> words; chunk \<open>k\<close> is made of
  the words at the positions \<open>window n (k * (max_words - overlap)) max_words\<close>; every
  position, hence every word, of the text lies in some chunk; no chunk has more than
  \<open>max_words\<close> words; and two consecutive chunks share exactly
  \<open>min overlap m\<close> positions, where \<open>m\<close> is the number of words of the later chunk:
  \<open>overlap\<close> words when the later chunk has at least that many, and the whole later
  chunk otherwise.
\<close>

theorem chunk_text_windows:
  assumes "0 \<le> overlap" "overlap < max_words"
  shows "\<exists>chunks.
     chunk_text txt max_words overlap = Inr chunks \<and>
     length chunks = (length (split_ws txt) + nat (max_words - overlap) - 1)
                       div nat (max_words - overlap) \<and>
     (\<forall>k<length chunks.
        split_ws (chunks ! k) =
          map ((!) (split_ws txt))
            [k * nat (max_words - overlap) ..<
               min (k * nat (max_words - overlap) + nat max_words) (length (split_ws txt))]) \<and>
     (\<forall>j<length (split_ws txt). \<exists>k<length chunks.
        j \<in> window (length (split_ws txt)) (k * nat (max_words - overlap)) (nat max_words)) \<and>
     set (split_ws txt) \<subseteq> (\<Union>c\<in>set chunks. set (split_ws c)) \<and>
     (\<forall>c\<in>set chunks. length (split_ws c) \<le> nat max_words) \<and>
     (\<forall>k. Suc k < length chunks \<longrightarrow>
        card (window (length (split_ws txt)) (k * nat (max_words - overlap)) (nat max_words) \<inter>
              window (length (split_ws txt)) (Suc k * nat (max_words - overlap)) (nat max_words))
          = min (nat overlap) (length (split_ws (chunks ! Suc k))))"
proof -
  define ws where "ws = split_ws txt"
  define n where "n = length ws"
  define S where "S = nat (max_words - overlap)"
  define M where "M = nat max_words"
  define cnt where "cnt = (n + S - 1) div S"
  define chunks where "chunks = map (\<lambda>k. join_sp (take M (drop (k * S) ws))) [0..<cnt]"
  have S: "0 < S" and SM: "S + nat overlap = M" and SleM: "S \<le> M"
    using assms by (simp_all add: S_def M_def)
  have ct: "chunk_text txt max_words overlap = Inr chunks"
    using chunk_text_closed [OF assms, of "txt"]
    by (simp add: chunks_def cnt_def S_def M_def n_def ws_def)
  have len: "length chunks = cnt"
    by (simp add: chunks_def)
  have words: "split_ws (chunks ! k) = take M (drop (k * S) ws)" if "k < cnt" for k
    using that by (simp add: chunks_def ws_def split_join_window)
  have lt: "k < cnt \<longleftrightarrow> k * S < n" for k
    using count_less_iff [OF S, of k n] by (simp add: cnt_def)
  have a: "\<forall>k<length chunks. split_ws (chunks ! k) = map ((!) ws) [k * S ..< min (k * S + M) n]"
    by (simp add: len words take_drop_nth n_def)
  have b: "\<forall>j<n. \<exists>k<length chunks. j \<in> window n (k * S) M"
  proof (intro allI impI)
    fix j assume j: "j < n"
    have 1: "j div S * S \<le> j" by simp
    have 2: "j < j div S * S + S"
      using S by (metis add.commute dividend_less_div_times)
    have "j div S < cnt"
      using lt [of "j div S"] 1 j by simp
    moreover have "j \<in> window n (j div S * S) M"
      using 1 2 j SleM by (simp add: window_def)
    ultimately show "\<exists>k<length chunks. j \<in> window n (k * S) M"
      unfolding len by blast
  qed
  have c: "set ws \<subseteq> (\<Union>c\<in>set chunks. set (split_ws c))"
  proof
    fix w assume "w \<in> set ws"
    then obtain j where j: "j < n" "ws ! j = w"
      by (auto simp: in_set_conv_nth n_def)
    from b j(1) obtain k where k: "k < length chunks" "j \<in> window n (k * S) M"
      by blast
    have "w \<in> set (split_ws (chunks ! k))"
      using a k j by (auto simp: window_def)
    then show "w \<in> (\<Union>c\<in>set chunks. set (split_ws c))"
      using k(1) by (meson UN_I nth_mem)
  qed
  have d: "\<forall>c\<in>set chunks. length (split_ws c) \<le> M"
  proof
    fix c assume "c \<in> set chunks"
    then obtain k where "k < length chunks" "chunks ! k = c"
      by (auto simp: in_set_conv_nth)
    then show "length (split_ws c) \<le> M"
      using words [of k] by (auto simp: len)
  qed
  have e: "\<forall>k. Suc k < length chunks \<longrightarrow>
      card (window n (k * S) M \<inter> window n (Suc k * S) M)
        = min (nat overlap) (length (split_ws (chunks ! Suc k)))"
  proof (intro allI impI)
    fix k assume k: "Suc k < length chunks"
    then have "k * S + S < n"
      using lt [of "Suc k"] by (simp add: len)
    then have "card (window n (k * S) M \<inter> window n (k * S + S) M)
        = min (nat overlap) (min M (n - (k * S + S)))"
      using window_overlap [OF SM, of "k * S" n] by simp
    moreover have "length (split_ws (chunks ! Suc k)) = min M (n - (k * S + S))"
      using words [of "Suc k"] k by (simp add: len n_def min_def add.commute)
    ultimately show "card (window n (k * S) M \<inter> window n (Suc k * S) M)
        = min (nat overlap) (length (split_ws (chunks ! Suc k)))"
      by (simp add: add.commute)
  qed
  show ?thesis
    using ct len a b c d e
    unfolding cnt_def n_def ws_def S_def M_def by blast
qed

theorem chunk_text_windows_witness:
  "(0::int) \<le> 1 \<and> (1::int) < 3 \<and>
   chunk_text ''a b c d e'' 3 1 = Inr [''a b c'', ''c d e'', ''e''] \<and>
   card (window 5 0 3 \<inter> window 5 2 3) = min 1 (length (split_ws ''c d e'')) \<and>
   card (window 5 2 3 \<inter> window 5 4 3) = min 1 (length (split_ws ''e''))"
proof -
  have h: "(0::int) \<le> 1" "(1::int) < 3" by simp_all
  from chunk_text_windows [OF h, of "''a b c d e''"] obtain chunks where
    c: "chunk_text ''a b c d e'' 3 1 = Inr chunks" and
    e: "\<forall>k. Suc k < length chunks \<longrightarrow>
        card (window (length (split_ws ''a b c d e'')) (k * nat (3 - 1)) (nat 3) \<inter>
              window (length (split_ws ''a b c d e'')) (Suc k * nat (3 - 1)) (nat 3))
          = min (nat 1) (length (split_ws (chunks ! Suc k)))"
    by (elim exE conjE)
  have v: "chunks = [''a b c'', ''c d e'', ''e'']"
    using c chunk_text_example by simp
  have "card (window 5 0 3 \<inter> window 5 2 3) = min 1 (length (split_ws ''c d e''))"
    using e [rule_format, of 0] chunk_text_example by (simp add: v)
  moreover have "card (window 5 2 3 \<inter> window 5 4 3) = min 1 (length (split_ws ''e''))"
    using e [rule_format, of 1] chunk_text_example by (simp add: v)
  ultimately show ?thesis
    using chunk_text_example by simp
qed

text \<open>
  The claim as stated fails: with \<open>max_words = 10\<close> and \<open>overlap = 8\<close> a text of five
  words gives three chunks, and the first two, neither of them the final chunk, share
  three words rather than eight.
\<close>

theorem chunk_overlap_counterexample:
  "chunk_text ''a b c d e'' 10 8 = Inr [''a b c d e'', ''c d e'', ''e''] \<and>
   length (split_ws ''a b c d e'') = 5 \<and>
   card (window 5 0 10 \<inter> window 5 2 10) = 3"
  by code_simp

text \<open>
  Claim C8, as the code has it. A text with at least one word and at most
  \<open>max_words - overlap\<close> words (\<open>overlap \<ge> 0\<close>) gives exactly one chunk: its words
  joined by single blanks, which split into the words of the text again; the chunk is
  the text itself when the text is already in that form.
\<close>

theorem chunk_text_single:
  assumes "0 \<le> overlap" "split_ws txt \<noteq> []"
    "int (length (split_ws txt)) \<le> max_words - overlap"
  shows "chunk_text txt max_words overlap = Inr [join_sp (split_ws txt)] \<and>
         split_ws (join_sp (split_ws txt)) = split_ws txt \<and>
         (join_sp (split_ws txt) = txt \<longrightarrow> chunk_text txt max_words overlap = Inr [txt])"
proof -
  define n where "n = length (split_ws txt)"
  define S where "S = nat (max_words - overlap)"
  have n: "0 < n" "n \<le> S" "n \<le> nat max_words"
    using assms by (simp_all add: n_def S_def)
  then have ov: "overlap < max_words"
    using assms by (simp add: S_def)
  have "(n + S - 1) div S = 1"
    using n by (simp add: div_nat_eqI)
  then have "chunk_text txt max_words overlap = Inr [join_sp (split_ws txt)]"
    using chunk_text_closed [OF assms(1) ov, of "txt"] n(3)
    by (simp add: n_def S_def)
  moreover have "split_ws (join_sp (split_ws txt)) = split_ws txt"
    by (rule split_join) (rule split_ws_good)
  ultimately show ?thesis by simp
qed

theorem chunk_text_single_witness:
  "(0::int) \<le> 100 \<and> split_ws ''one  two three'' \<noteq> [] \<and>
   int (length (split_ws ''one  two three'')) \<le> 700 - 100 \<and>
   chunk_text ''one  two three'' 700 100 = Inr [''one two three'']"
proof -
  have e: "split_ws ''one  two three'' = [''one'', ''two'', ''three'']"
    by code_simp
  show ?thesis
    using chunk_text_single [of 100 "''one  two three''" 700] by (simp add: e)
qed

text \<open>
  The claim as stated fails in three ways: three words are fewer than \<open>max_words = 4\<close>,
  yet with \<open>overlap = 2\<close> there are two chunks; with the parameters of the service a
  text with a double blank gives a chunk that differs from the text; and a text
  without words gives no chunk at all.
\<close>

theorem chunk_single_counterexample:
  "length (split_ws ''a b c'') = 3 \<and> chunk_text ''a b c'' 4 2 = Inr [''a b c'', ''c''] \<and>
   chunk_text ''a  b'' 700 100 = Inr [''a b''] \<and>
   chunk_text '' '' 700 100 = Inr []"
  by code_simp

section \<open>The title\<close>

lemma join_sp_Nil_iff: "list_all good_word ws \<Longrightarrow> join_sp ws = [] \<longleftrightarrow> ws = []"
  by (induction ws rule: join_sp.induct) (simp_all add: good_word_def)

lemma split_ws_append_dots:
  assumes "list_all good_word ws" "ws \<noteq> []" "list_all (\<lambda>c. \<not> is_space c) x"
  shows "split_ws (join_sp ws @ x) = butlast ws @ [last ws @ x]"
proof -
  obtain w vs where ws: "ws = w # vs" using assms(2) by (cases ws) auto
  show ?thesis
    using split_join_suffix [of w vs x] assms(1,3)
    unfolding ws split_ws_def by simp
qed

lemma dots_no_space: "list_all (\<lambda>c. \<not> is_space c) ''...''"
  by (simp add: is_space_def whitespace_def)

lemma untitled: "split_ws ''Untitled Summary...'' = [''Untitled'', ''Summary...'']"
  by code_simp

text \<open>
  Claim C4, as the code has it. The title is made of the first 12 words of the summary,
  joined by single blanks. When there is no word the title is \<open>Untitled Summary...\<close>:
  the fallback \<open>Untitled Summary\<close> does not end with a period, so the second test
  appends the dots to it as well. Otherwise the dots are appended unless the joined
  words end with a period. The title is never empty and has at most 12 words: as many
  as the summary has, up to 12.
\<close>

theorem make_title_spec:
  "make_title summary =
     (let t = join_sp (take 12 (split_ws summary)) in
      if t = [] then ''Untitled Summary...''
      else if endswith_dot t then t else t @ ''...'') \<and>
   make_title summary \<noteq> [] \<and>
   length (split_ws (make_title summary)) \<le> 12 \<and>
   (split_ws summary \<noteq> [] \<longrightarrow>
      length (split_ws (make_title summary)) = min 12 (length (split_ws summary)))"
proof -
  define ws where "ws = take 12 (split_ws summary)"
  define t where "t = join_sp ws"
  have good: "list_all good_word ws"
    using list_all_take_drop [OF split_ws_good, of 12 0 summary] by (simp add: ws_def)
  have eq: "make_title summary =
     (if t = [] then ''Untitled Summary...''
      else if endswith_dot t then t else t @ ''...'')"
    by (simp add: make_title_def Let_def t_def ws_def endswith_dot_def)
  have ne: "make_title summary \<noteq> []"
    by (simp add: eq)
  have tnil: "t = [] \<longleftrightarrow> ws = []"
    using join_sp_Nil_iff [OF good] by (simp add: t_def)
  have lenws: "length ws = min 12 (length (split_ws summary))"
    by (simp add: ws_def min_def)
  have len: "length (split_ws (make_title summary)) = (if ws = [] then 2 else length ws)"
  proof (cases "ws = []")
    case True
    then show ?thesis by (simp add: eq tnil untitled)
  next
    case False
    have 1: "split_ws t = ws" by (simp add: t_def split_join good)
    have 2: "split_ws (t @ ''...'') = butlast ws @ [last ws @ ''...'']"
      unfolding t_def using good False dots_no_space by (rule split_ws_append_dots)
    show ?thesis
      using False by (simp add: eq tnil 1 2)
  qed
  have wsnil: "ws = [] \<longleftrightarrow> split_ws summary = []"
    by (simp add: ws_def)
  show ?thesis
    using eq ne len lenws wsnil by (simp add: Let_def t_def ws_def)
qed

theorem make_title_spec_witness:
  "split_ws ''Cats sleep most of the day'' \<noteq> [] \<and>
   make_title ''Cats sleep most of the day'' = ''Cats sleep most of the day...'' \<and>
   length (split_ws (make_title ''Cats sleep most of the day'')) = 6"
proof -
  have e: "split_ws ''Cats sleep most of the day'' =
           [''Cats'', ''sleep'', ''most'', ''of'', ''the'', ''day'']"
    by code_simp
  have j: "join_sp [''Cats'', ''sleep'', ''most'', ''of'', ''the'', ''day''] =
           ''Cats sleep most of the day''"
    by simp
  have m: "make_title ''Cats sleep most of the day'' = ''Cats sleep most of the day...''"
    using make_title_spec [of "''Cats sleep most of the day''", THEN conjunct1]
    by (simp add: e j endswith_dot_def)
  have l: "length (split_ws (make_title ''Cats sleep most of the day'')) = 6"
    using make_title_spec [of "''Cats sleep most of the day''",
        THEN conjunct2, THEN conjunct2, THEN conjunct2]
    by (simp add: e)
  show ?thesis
    using m l by (simp add: e)
qed

text \<open>
  The claim as stated fails for a summary without words: the title is not the literal
  \<open>Untitled Summary\<close>.
\<close>

theorem title_counterexample:
  "join_sp (take 12 (split_ws '''')) = [] \<and> make_title '''' = ''Untitled Summary...'' \<and>
   make_title '''' \<noteq> ''Untitled Summary''"
  by code_simp

section \<open>Runs of the pipeline\<close>

lemma summarizer_calls_append [simp]:
  "summarizer_calls (xs @ ys) = summarizer_calls xs @ summarizer_calls ys"
  by (induction xs rule: summarizer_calls.induct) simp_all

lemma new_calls_append: "calls st' = calls st @ xs \<Longrightarrow> new_calls st st' = xs"
  by (simp add: new_calls_def)

lemma call_encode_run:
  "call_encode env t st =
     (fst (tokenizer_encode env t (world st)),
      st\<lparr>world := snd (tokenizer_encode env t (world st)),
         calls := calls st @ [Encode t (fst (tokenizer_encode env t (world st)))]\<rparr>)"
  by (simp add: call_encode_def split: prod.splits)

lemma summarizer_text_run:
  "summarizer_text env t kw st =
     (outcome_text (fst (summarizer env t kw (world st))),
      st\<lparr>world := snd (summarizer env t kw (world st)),
         calls := calls st @ [Summarizer t kw (fst (summarizer env t kw (world st)))]\<rparr>)"
  by (simp add: summarizer_text_def call_summarizer_def split: prod.splits)

lemma call_save_run:
  "call_save env r st =
     (fst (record_save env r (world st)),
      st\<lparr>world := snd (record_save env r (world st)),
         db := (if fst (record_save env r (world st)) = None then db st @ [r] else db st),
         calls := calls st @ [Save r (fst (record_save env r (world st)))]\<rparr>)"
  by (simp add: call_save_def split: prod.splits option.splits)

lemma combined_run:
  "summarize_combined_chunks env ps pmax pmin mode st =
     summarizer_text env (join_sp ps) (combined_kwargs pmax pmin mode) st"
  by (simp add: summarize_combined_chunks_def combined_kwargs_def)

lemma partials_calls:
  "\<exists>xs rs. calls (snd (summarize_partials env chunks pmax pmin st)) = calls st @ xs \<and>
     summarizer_calls xs = map (\<lambda>(c, r). (c, first_pass_kwargs pmax pmin, r)) (zip chunks rs) \<and>
     length rs \<le> length chunks \<and>
     (\<forall>ss. fst (summarize_partials env chunks pmax pmin st) = Inr ss \<longrightarrow>
        rs = map Inr ss \<and> length ss = length chunks) \<and>
     (\<forall>e. Inl e \<in> set rs \<longleftrightarrow> fst (summarize_partials env chunks pmax pmin st) = Inl e) \<and>
     (chunks \<noteq> [] \<longrightarrow> rs \<noteq> []) \<and>
     db (snd (summarize_partials env chunks pmax pmin st)) = db st"
proof (induction chunks arbitrary: st)
  case Nil
  show ?case by (rule exI [of _ "[]"], rule exI [of _ "[]"]) simp
next
  case (Cons c cs)
  define kw where "kw = first_pass_kwargs pmax pmin"
  define o1 where "o1 = fst (summarizer env c kw (world st))"
  define st1 where "st1 = st\<lparr>world := snd (summarizer env c kw (world st)),
                              calls := calls st @ [Summarizer c kw o1]\<rparr>"
  have run: "summarizer_text env c kw st = (outcome_text o1, st1)"
    by (simp add: summarizer_text_run o1_def st1_def)
  have unf: "summarize_partials env (c # cs) pmax pmin st =
      (case outcome_text o1 of
         Inl e \<Rightarrow> (Inl e, st1)
       | Inr s \<Rightarrow> (case summarize_partials env cs pmax pmin st1 of
                    (Inl e, st2) \<Rightarrow> (Inl e, st2)
                  | (Inr ss, st2) \<Rightarrow> (Inr (s # ss), st2)))"
    using run by (simp add: kw_def first_pass_kwargs_def)
  show ?case
  proof (cases "outcome_text o1")
    case (Inl e)
    show ?thesis
      unfolding unf Inl
      by (rule exI [of _ "[Summarizer c kw o1]"], rule exI [of _ "[Inl e]"])
         (auto simp: st1_def kw_def Inl)
  next
    case (Inr s)
    from Cons.IH [of st1] obtain xs rs where
      1: "calls (snd (summarize_partials env cs pmax pmin st1)) = calls st1 @ xs" and
      2: "summarizer_calls xs = map (\<lambda>(c, r). (c, first_pass_kwargs pmax pmin, r)) (zip cs rs)" and
      3: "length rs \<le> length cs" and
      4: "\<forall>ss. fst (summarize_partials env cs pmax pmin st1) = Inr ss \<longrightarrow>
            rs = map Inr ss \<and> length ss = length cs" and
      5: "\<forall>e. Inl e \<in> set rs \<longleftrightarrow> fst (summarize_partials env cs pmax pmin st1) = Inl e" and
      6: "db (snd (summarize_partials env cs pmax pmin st1)) = db st1"
      by blast
    obtain r2 st2 where rest: "summarize_partials env cs pmax pmin st1 = (r2, st2)"
      by (cases "summarize_partials env cs pmax pmin st1")
    show ?thesis
      unfolding unf Inr
      apply (rule exI [of _ "Summarizer c kw o1 # xs"], rule exI [of _ "Inr s # rs"])
      using 1 2 3 4 5 6 rest
      by (cases r2) (auto simp: st1_def kw_def Inr)
  qed
qed


lemma chunk_text_default:
  "chunk_text t 700 100 =
     Inr (map (\<lambda>k. join_sp (take 700 (drop (k * 600) (split_ws t))))
            [0..<(length (split_ws t) + 599) div 600])"
  using chunk_text_closed [of 100 700 t] by (simp add: add.commute)

lemma pipeline_encode_fails:
  assumes "fst (tokenizer_encode env t (world st)) = Inl e"
  shows "fst (pipeline env t pmin pmax mode st) = Inl e \<and>
         calls (snd (pipeline env t pmin pmax mode st)) = calls st @ [Encode t (Inl e)] \<and>
         db (snd (pipeline env t pmin pmax mode st)) = db st"
  using assms by (simp add: pipeline_def call_encode_run)

lemma pipeline_direct:
  assumes "fst (tokenizer_encode env t (world st)) = Inr toks" "length toks \<le> 1024"
  shows "\<exists>out. out = fst (summarizer env t (direct_kwargs pmax pmin mode)
                          (snd (tokenizer_encode env t (world st)))) \<and>
         fst (pipeline env t pmin pmax mode st) =
           map_sum id (\<lambda>s. (s, length toks)) (outcome_text out) \<and>
         calls (snd (pipeline env t pmin pmax mode st)) =
           calls st @ [Encode t (Inr toks), Summarizer t (direct_kwargs pmax pmin mode) out] \<and>
         db (snd (pipeline env t pmin pmax mode st)) = db st"
  using assms
  by (simp add: pipeline_def call_encode_run summarizer_text_run MAX_TOKENS_def
      direct_kwargs_def split: sum.splits)

lemma pipeline_chunked:
  assumes "fst (tokenizer_encode env t (world st)) = Inr toks" "length toks > 1024"
  shows "\<exists>chunks xs rs tail.
     chunk_text t 700 100 = Inr chunks \<and>
     calls (snd (pipeline env t pmin pmax mode st)) = calls st @ Encode t (Inr toks) # xs @ tail \<and>
     summarizer_calls xs = map (\<lambda>(c, r). (c, first_pass_kwargs pmax pmin, r)) (zip chunks rs) \<and>
     length rs \<le> length chunks \<and> (chunks \<noteq> [] \<longrightarrow> rs \<noteq> []) \<and>
     db (snd (pipeline env t pmin pmax mode st)) = db st \<and>
     (\<forall>e. Inl e \<in> set rs \<longrightarrow> fst (pipeline env t pmin pmax mode st) = Inl e) \<and>
     (tail = [] \<and> (\<exists>e. Inl e \<in> set rs) \<or>
      (\<exists>ss out. rs = map Inr ss \<and> length ss = length chunks \<and>
         tail = [Summarizer (join_sp ss) (combined_kwargs pmax pmin mode) out] \<and>
         fst (pipeline env t pmin pmax mode st) =
           map_sum id (\<lambda>s. (s, length toks)) (outcome_text out)))"
proof -
  define st1 where "st1 = st\<lparr>world := snd (tokenizer_encode env t (world st)),
                              calls := calls st @ [Encode t (Inr toks)]\<rparr>"
  obtain chunks where ch: "chunk_text t 700 100 = Inr chunks"
    using chunk_text_default [of t] by simp
  obtain rp st2 where sp: "summarize_partials env chunks pmax pmin st1 = (rp, st2)"
    by (cases "summarize_partials env chunks pmax pmin st1")
  have unf: "pipeline env t pmin pmax mode st =
      (case rp of
         Inl e \<Rightarrow> (Inl e, st2)
       | Inr partials \<Rightarrow>
           (case summarizer_text env (join_sp partials) (combined_kwargs pmax pmin mode) st2 of
              (Inl e, st3) \<Rightarrow> (Inl e, st3)
            | (Inr summary, st3) \<Rightarrow> (Inr (summary, length toks), st3)))"
    using assms ch sp
    by (simp add: pipeline_def call_encode_run MAX_TOKENS_def combined_run
        flip: st1_def split: sum.splits)
  from partials_calls [of env chunks pmax pmin st1] sp obtain xs rs where
    1: "calls st2 = calls st1 @ xs" and
    2: "summarizer_calls xs = map (\<lambda>(c, r). (c, first_pass_kwargs pmax pmin, r)) (zip chunks rs)" and
    3: "length rs \<le> length chunks" and
    4: "\<forall>ss. rp = Inr ss \<longrightarrow> rs = map Inr ss \<and> length ss = length chunks" and
    5: "\<forall>e. Inl e \<in> set rs \<longleftrightarrow> rp = Inl e" and
    6: "chunks \<noteq> [] \<longrightarrow> rs \<noteq> []" and
    7: "db st2 = db st1"
    by auto
  show ?thesis
  proof (cases rp)
    case (Inl e)
    show ?thesis
      apply (rule exI [of _ chunks], rule exI [of _ xs], rule exI [of _ rs], rule exI [of _ "[]"])
      using ch 1 2 3 5 6 7 by (simp add: unf Inl st1_def)
  next
    case (Inr ss)
    define out where "out = fst (summarizer env (join_sp ss) (combined_kwargs pmax pmin mode) (world st2))"
    have nofail: "Inl e \<notin> set rs" for e
      using 5 Inr by auto
    show ?thesis
      apply (rule exI [of _ chunks], rule exI [of _ xs], rule exI [of _ rs],
             rule exI [of _ "[Summarizer (join_sp ss) (combined_kwargs pmax pmin mode) out]"])
      using ch 1 2 3 4 6 7 nofail
      by (simp add: unf Inr st1_def summarizer_text_run out_def split: sum.splits)
  qed
qed

section \<open>Runs of the handler\<close>

lemma summarize_cases:
  assumes "req_text data = Some t" "t \<noteq> []"
    and "pipeline env t (fst (preset_for (request_length data)))
           (snd (preset_for (request_length data))) (request_mode data) st = (pr, st1)"
  shows "case pr of
      Inl e \<Rightarrow> summarize env data st = (error_response e, st1)
    | Inr (s, n) \<Rightarrow>
        (case fst (record_save env (new_record env t s st1) (world st1)) of
           Some e \<Rightarrow>
             summarize env data st =
               (error_response e,
                st1\<lparr>world := snd (record_save env (new_record env t s st1) (world st1)),
                    calls := calls st1 @ [Save (new_record env t s st1) (Some e)]\<rparr>)
         | None \<Rightarrow>
             summarize env data st =
               ((200, success_body t s n),
                st1\<lparr>world := snd (record_save env (new_record env t s st1) (world st1)),
                    db := db st1 @ [new_record env t s st1],
                    calls := calls st1 @ [Save (new_record env t s st1) None]\<rparr>))"
  using assms
  by (cases "preset_for (request_length data)")
     (auto simp: summarize_def try_body_def Let_def call_save_run error_response_def
        success_body_def new_record_def request_length_def request_mode_def
        split: sum.splits option.splits prod.splits)


lemma pipeline_extends:
  "\<exists>xs. calls (snd (pipeline env t pmin pmax mode st)) = calls st @ xs \<and>
        db (snd (pipeline env t pmin pmax mode st)) = db st"
proof (cases "fst (tokenizer_encode env t (world st))")
  case (Inl e)
  then show ?thesis
    using pipeline_encode_fails [of env t st e pmin pmax mode] by simp
next
  case (Inr toks)
  show ?thesis
  proof (cases "length toks \<le> 1024")
    case True
    then show ?thesis
      using pipeline_direct [OF Inr, of pmax pmin mode] by simp
  next
    case False
    then have "length toks > 1024" by simp
    from pipeline_chunked [OF Inr this, of pmin pmax mode] show ?thesis
      by auto
  qed
qed

lemma summarize_shape:
  assumes "req_text data = Some t" "t \<noteq> []"
  shows "\<exists>pr st1 xs.
     pipeline env t (fst (preset_for (request_length data)))
       (snd (preset_for (request_length data))) (request_mode data) st = (pr, st1) \<and>
     calls st1 = calls st @ xs \<and> db st1 = db st \<and>
     summarizer_calls (new_calls st (snd (summarize env data st))) = summarizer_calls xs \<and>
     (\<forall>e. pr = Inl e \<longrightarrow>
        fst (summarize env data st) = error_response e \<and>
        db (snd (summarize env data st)) = db st) \<and>
     (\<forall>s n. pr = Inr (s, n) \<longrightarrow>
        (fst (record_save env (new_record env t s st1) (world st1)) = None \<longrightarrow>
           fst (summarize env data st) = (200, success_body t s n) \<and>
           db (snd (summarize env data st)) = db st @ [new_record env t s st1]) \<and>
        (\<forall>e. fst (record_save env (new_record env t s st1) (world st1)) = Some e \<longrightarrow>
           fst (summarize env data st) = error_response e \<and>
           db (snd (summarize env data st)) = db st))"
proof -
  obtain pr st1 where p: "pipeline env t (fst (preset_for (request_length data)))
       (snd (preset_for (request_length data))) (request_mode data) st = (pr, st1)"
    by (cases "pipeline env t (fst (preset_for (request_length data)))
       (snd (preset_for (request_length data))) (request_mode data) st")
  from pipeline_extends [of env t "fst (preset_for (request_length data))"
      "snd (preset_for (request_length data))" "request_mode data" st] p
  obtain xs where xs: "calls st1 = calls st @ xs" and db1: "db st1 = db st"
    by auto
  note c = summarize_cases [OF assms p]
  show ?thesis
  proof (cases pr)
    case (Inl e)
    then show ?thesis
      using c p xs db1 by (auto simp: new_calls_def)
  next
    case (Inr sn)
    obtain s n where sn: "sn = (s, n)" by (cases sn)
    show ?thesis
    proof (cases "fst (record_save env (new_record env t s st1) (world st1))")
      case None
      then show ?thesis
        using c p xs db1 Inr sn by (auto simp: new_calls_def)
    next
      case (Some e)
      then show ?thesis
        using c p xs db1 Inr sn by (auto simp: new_calls_def)
    qed
  qed
qed

lemma pipeline_calls_direct:
  assumes "fst (tokenizer_encode env t (world st)) = Inr toks" "length toks \<le> 1024"
  shows "\<exists>r. summarizer_calls (new_calls st (snd (pipeline env t pmin pmax mode st))) =
               [(t, direct_kwargs pmax pmin mode, r)] \<and>
             r = outcome_text (fst (summarizer env t (direct_kwargs pmax pmin mode)
                                      (snd (tokenizer_encode env t (world st))))) \<and>
             fst (pipeline env t pmin pmax mode st) = map_sum id (\<lambda>s. (s, length toks)) r"
  using pipeline_direct [OF assms, of pmax pmin mode]
  by (simp add: new_calls_def)

lemma pipeline_calls_chunked:
  assumes "fst (tokenizer_encode env t (world st)) = Inr toks" "length toks > 1024"
  shows "\<exists>chunks rs tail.
     chunk_text t 700 100 = Inr chunks \<and>
     summarizer_calls (new_calls st (snd (pipeline env t pmin pmax mode st))) =
       map (\<lambda>(c, r). (c, first_pass_kwargs pmax pmin, r)) (zip chunks rs) @ tail \<and>
     length rs \<le> length chunks \<and> (chunks \<noteq> [] \<longrightarrow> rs \<noteq> []) \<and>
     (\<forall>e. Inl e \<in> set rs \<longrightarrow> fst (pipeline env t pmin pmax mode st) = Inl e) \<and>
     (tail = [] \<and> (\<exists>e. Inl e \<in> set rs) \<or>
      (\<exists>ss r. rs = map Inr ss \<and> length ss = length chunks \<and>
         tail = [(join_sp ss, combined_kwargs pmax pmin mode, r)] \<and>
         fst (pipeline env t pmin pmax mode st) = map_sum id (\<lambda>s. (s, length toks)) r))"
proof -
  from pipeline_chunked [OF assms, of pmin pmax mode] obtain chunks xs rs tail where
    1: "chunk_text t 700 100 = Inr chunks" and
    2: "calls (snd (pipeline env t pmin pmax mode st)) = calls st @ Encode t (Inr toks) # xs @ tail" and
    3: "summarizer_calls xs = map (\<lambda>(c, r). (c, first_pass_kwargs pmax pmin, r)) (zip chunks rs)" and
    4: "length rs \<le> length chunks" "chunks \<noteq> [] \<longrightarrow> rs \<noteq> []" and
    5: "\<forall>e. Inl e \<in> set rs \<longrightarrow> fst (pipeline env t pmin pmax mode st) = Inl e" and
    6: "tail = [] \<and> (\<exists>e. Inl e \<in> set rs) \<or>
      (\<exists>ss out. rs = map Inr ss \<and> length ss = length chunks \<and>
         tail = [Summarizer (join_sp ss) (combined_kwargs pmax pmin mode) out] \<and>
         fst (pipeline env t pmin pmax mode st) =
           map_sum id (\<lambda>s. (s, length toks)) (outcome_text out))"
    by blast
  have nc: "summarizer_calls (new_calls st (snd (pipeline env t pmin pmax mode st))) =
      map (\<lambda>(c, r). (c, first_pass_kwargs pmax pmin, r)) (zip chunks rs) @ summarizer_calls tail"
    using 2 3 by (simp add: new_calls_def)
  from 6 show ?thesis
  proof
    assume a: "tail = [] \<and> (\<exists>e. Inl e \<in> set rs)"
    show ?thesis
      apply (rule exI [of _ chunks], rule exI [of _ rs], rule exI [of _ "[]"])
      using 1 4 5 a nc by simp
  next
    assume "\<exists>ss out. rs = map Inr ss \<and> length ss = length chunks \<and>
         tail = [Summarizer (join_sp ss) (combined_kwargs pmax pmin mode) out] \<and>
         fst (pipeline env t pmin pmax mode st) =
           map_sum id (\<lambda>s. (s, length toks)) (outcome_text out)"
    then obtain ss out where b: "rs = map Inr ss" "length ss = length chunks"
      "tail = [Summarizer (join_sp ss) (combined_kwargs pmax pmin mode) out]"
      "fst (pipeline env t pmin pmax mode st) = map_sum id (\<lambda>s. (s, length toks)) (outcome_text out)"
      by blast
    show ?thesis
      apply (rule exI [of _ chunks], rule exI [of _ rs],
             rule exI [of _ "[(join_sp ss, combined_kwargs pmax pmin mode, outcome_text out)]"])
      using 1 4 5 b nc by simp
  qed
qed

lemma pipeline_failed_call:
  assumes "(t', kw, Inl e) \<in> set (summarizer_calls (new_calls st (snd (pipeline env t pmin pmax mode st))))"
  shows "fst (pipeline env t pmin pmax mode st) = Inl e"
proof (cases "fst (tokenizer_encode env t (world st))")
  case (Inl e')
  then show ?thesis
    using assms pipeline_encode_fails [of env t st e' pmin pmax mode]
    by (simp add: new_calls_def)
next
  case (Inr toks)
  show ?thesis
  proof (cases "length toks \<le> 1024")
    case True
    from pipeline_calls_direct [OF Inr True, of pmin pmax mode] obtain r where
      a: "summarizer_calls (new_calls st (snd (pipeline env t pmin pmax mode st))) =
            [(t, direct_kwargs pmax pmin mode, r)]" and
      b: "fst (pipeline env t pmin pmax mode st) = map_sum id (\<lambda>s. (s, length toks)) r"
      by blast
    from assms a have "r = Inl e" by simp
    then show ?thesis using b by simp
  next
    case False
    then have big: "length toks > 1024" by simp
    from pipeline_calls_chunked [OF Inr big, of pmin pmax mode] obtain chunks rs tail where
      2: "summarizer_calls (new_calls st (snd (pipeline env t pmin pmax mode st))) =
           map (\<lambda>(c, r). (c, first_pass_kwargs pmax pmin, r)) (zip chunks rs) @ tail" and
      5: "\<forall>e. Inl e \<in> set rs \<longrightarrow> fst (pipeline env t pmin pmax mode st) = Inl e" and
      6: "tail = [] \<and> (\<exists>e. Inl e \<in> set rs) \<or>
          (\<exists>ss r. rs = map Inr ss \<and> length ss = length chunks \<and>
             tail = [(join_sp ss, combined_kwargs pmax pmin mode, r)] \<and>
             fst (pipeline env t pmin pmax mode st) = map_sum id (\<lambda>s. (s, length toks)) r)"
      by blast
    from assms 2 have "(t', kw, Inl e) \<in> set (map (\<lambda>(c, r). (c, first_pass_kwargs pmax pmin, r)) (zip chunks rs))
        \<or> (t', kw, Inl e) \<in> set tail"
      by auto
    then show ?thesis
    proof
      assume "(t', kw, Inl e) \<in> set (map (\<lambda>(c, r). (c, first_pass_kwargs pmax pmin, r)) (zip chunks rs))"
      then have "Inl e \<in> set rs"
        by (auto dest: set_zip_rightD)
      then show ?thesis using 5 by blast
    next
      assume t: "(t', kw, Inl e) \<in> set tail"
      with 6 obtain ss r where
        c: "tail = [(join_sp ss, combined_kwargs pmax pmin mode, r)]"
           "fst (pipeline env t pmin pmax mode st) = map_sum id (\<lambda>s. (s, length toks)) r"
        by auto
      from t c(1) have "r = Inl e" by simp
      then show ?thesis using c(2) by simp
    qed
  qed
qed

lemma pipeline_call_kwargs:
  assumes "(t', kw, r) \<in> set (summarizer_calls (new_calls st (snd (pipeline env t pmin pmax mode st))))"
  shows "kw = direct_kwargs pmax pmin mode \<or> kw = first_pass_kwargs pmax pmin \<or>
         kw = combined_kwargs pmax pmin mode"
proof (cases "fst (tokenizer_encode env t (world st))")
  case (Inl e')
  then show ?thesis
    using assms pipeline_encode_fails [of env t st e' pmin pmax mode]
    by (simp add: new_calls_def)
next
  case (Inr toks)
  show ?thesis
  proof (cases "length toks \<le> 1024")
    case True
    from pipeline_calls_direct [OF Inr True, of pmin pmax mode] assms show ?thesis
      by auto
  next
    case False
    then have big: "length toks > 1024" by simp
    from pipeline_calls_chunked [OF Inr big, of pmin pmax mode] assms show ?thesis
      by (auto dest: set_zip_leftD)
  qed
qed

lemma pipeline_calls_nonempty:
  assumes "fst (tokenizer_encode env t (world st)) = Inr toks"
  shows "summarizer_calls (new_calls st (snd (pipeline env t pmin pmax mode st))) \<noteq> []"
proof (cases "length toks \<le> 1024")
  case True
  from pipeline_calls_direct [OF assms True, of pmin pmax mode] show ?thesis
    by auto
next
  case False
  then have big: "length toks > 1024" by simp
  from pipeline_calls_chunked [OF assms big, of pmin pmax mode] obtain chunks rs tail where
    2: "summarizer_calls (new_calls st (snd (pipeline env t pmin pmax mode st))) =
         map (\<lambda>(c, r). (c, first_pass_kwargs pmax pmin, r)) (zip chunks rs) @ tail" and
    4: "length rs \<le> length chunks" "chunks \<noteq> [] \<longrightarrow> rs \<noteq> []" and
    6: "tail = [] \<and> (\<exists>e. Inl e \<in> set rs) \<or>
        (\<exists>ss r. rs = map Inr ss \<and> length ss = length chunks \<and>
           tail = [(join_sp ss, combined_kwargs pmax pmin mode, r)] \<and>
           fst (pipeline env t pmin pmax mode st) = map_sum id (\<lambda>s. (s, length toks)) r)"
    by blast
  show ?thesis
  proof (cases "chunks = []")
    case True
    then have "rs = []" using 4 by simp
    then show ?thesis using 2 6 True by auto
  next
    case False
    then have "zip chunks rs \<noteq> []" using 4 by (cases chunks; cases rs) auto
    then show ?thesis using 2 by simp
  qed
qed

section \<open>Length presets\<close>

lemma handler_calls:
  assumes "req_text data = Some t" "t \<noteq> []"
  shows "summarizer_calls (new_calls st (snd (summarize env data st))) =
         summarizer_calls (new_calls st (snd (pipeline env t
           (fst (preset_for (request_length data))) (snd (preset_for (request_length data)))
           (request_mode data) st)))"
  using summarize_shape [OF assms, of env st] by (auto simp: new_calls_def)

lemma preset_fields:
  "min_length (direct_kwargs pmax pmin mode) = pmin \<and> max_length (direct_kwargs pmax pmin mode) = pmax \<and>
   min_length (first_pass_kwargs pmax pmin) = pmin \<and> max_length (first_pass_kwargs pmax pmin) = pmax \<and>
   min_length (combined_kwargs pmax pmin mode) = pmin \<and> max_length (combined_kwargs pmax pmin mode) = pmax"
  by (simp add: direct_kwargs_def first_pass_kwargs_def combined_kwargs_def)

text \<open>
  Claim C7. The table of output bounds is short \<open>\<mapsto>\<close> (15, 30), medium \<open>\<mapsto>\<close> (50, 100),
  long \<open>\<mapsto>\<close> (100, 180) as (min, max), and every other value of \<open>length\<close> gets the bounds
  of medium, (50, 100). These are the bounds that a request uses: for a request with a
  non-empty text whose tokenizer call returns, the handler calls the summarizer at least
  once, and every such call passes as \<open>min_length\<close> and \<open>max_length\<close> the pair of the
  request's \<open>length\<close>, or (50, 100) when the request has no \<open>length\<close> field.
\<close>

theorem presets_used:
  "preset_for ''short'' = (15, 30) \<and> preset_for ''medium'' = (50, 100) \<and>
   preset_for ''long'' = (100, 180) \<and>
   (len \<notin> {''short'', ''medium'', ''long''} \<longrightarrow> preset_for len = (50, 100)) \<and>
   (req_text data = Some t \<and> t \<noteq> [] \<and> fst (tokenizer_encode env t (world st)) = Inr toks \<longrightarrow>
      summarizer_calls (new_calls st (snd (summarize env data st))) \<noteq> [] \<and>
      (\<forall>(t', kw, r) \<in> set (summarizer_calls (new_calls st (snd (summarize env data st)))).
         (min_length kw, max_length kw) =
           (case req_length data of None \<Rightarrow> (50, 100) | Some l \<Rightarrow> preset_for l)))"
proof -
  have tab: "preset_for ''short'' = (15, 30) \<and> preset_for ''medium'' = (50, 100) \<and>
      preset_for ''long'' = (100, 180) \<and>
      (len \<notin> {''short'', ''medium'', ''long''} \<longrightarrow> preset_for len = (50, 100))"
    by (simp add: preset_for_def length_presets_def)
  have dflt: "preset_for (request_length data) =
      (case req_length data of None \<Rightarrow> (50, 100) | Some l \<Rightarrow> preset_for l)"
    by (simp add: request_length_def preset_for_def length_presets_def split: option.splits)
  have use: "summarizer_calls (new_calls st (snd (summarize env data st))) \<noteq> [] \<and>
      (\<forall>(t', kw, r) \<in> set (summarizer_calls (new_calls st (snd (summarize env data st)))).
         (min_length kw, max_length kw) =
           (case req_length data of None \<Rightarrow> (50, 100) | Some l \<Rightarrow> preset_for l))"
    if a: "req_text data = Some t" "t \<noteq> []" "fst (tokenizer_encode env t (world st)) = Inr toks"
  proof -
    define pmin where "pmin = fst (preset_for (request_length data))"
    define pmax where "pmax = snd (preset_for (request_length data))"
    have hc: "summarizer_calls (new_calls st (snd (summarize env data st))) =
        summarizer_calls (new_calls st (snd (pipeline env t pmin pmax (request_mode data) st)))"
      using handler_calls [OF a(1,2), of st env] by (simp add: pmin_def pmax_def)
    have ne: "summarizer_calls (new_calls st (snd (summarize env data st))) \<noteq> []"
      unfolding hc by (rule pipeline_calls_nonempty [OF a(3)])
    have kws: "(min_length kw, max_length kw) = (pmin, pmax)"
      if "(t', kw, r) \<in> set (summarizer_calls (new_calls st (snd (summarize env data st))))"
      for t' kw r
      using pipeline_call_kwargs [of t' kw r st env t pmin pmax "request_mode data"] that
        preset_fields [of pmax pmin "request_mode data"]
      unfolding hc by auto
    have "(pmin, pmax) = (case req_length data of None \<Rightarrow> (50, 100) | Some l \<Rightarrow> preset_for l)"
      using dflt by (simp add: pmin_def pmax_def)
    then show ?thesis
      using ne kws by auto
  qed
  show ?thesis
    using tab use by blast
qed

theorem presets_used_witness:
  "''tiny'' \<notin> {''short'', ''medium'', ''long''} \<and> preset_for ''tiny'' = (50, 100) \<and>
   req_text \<lparr>req_text = Some ''a b'', req_length = Some ''short'', req_mode = None\<rparr> = Some ''a b'' \<and>
   ''a b'' \<noteq> [] \<and>
   fst (tokenizer_encode (stub_env 1) ''a b'' (world init_state)) = Inr [0, 0] \<and>
   map (\<lambda>(t, kw, r). (min_length kw, max_length kw))
     (summarizer_calls (new_calls init_state (snd (summarize (stub_env 1)
        \<lparr>req_text = Some ''a b'', req_length = Some ''short'', req_mode = None\<rparr> init_state))))
     = [preset_for ''short''] \<and>
   map (\<lambda>(t, kw, r). (min_length kw, max_length kw))
     (summarizer_calls (new_calls init_state (snd (summarize (stub_env 1)
        \<lparr>req_text = Some ''a b'', req_length = None, req_mode = None\<rparr> init_state))))
     = [(50, 100)]"
proof -
  have enc: "fst (tokenizer_encode (stub_env 1) ''a b'' (world init_state)) = Inr [0, 0]"
    by code_simp
  have run: "map (\<lambda>(t, kw, r). t)
     (summarizer_calls (new_calls init_state (snd (summarize (stub_env 1)
        \<lparr>req_text = Some ''a b'', req_length = l, req_mode = None\<rparr> init_state)))) = [''a b'']"
    if "l = Some ''short'' \<or> l = None" for l
    using that by (elim disjE) (simp, code_simp, simp, code_simp)
  have 1: "map (\<lambda>(t, kw, r). (min_length kw, max_length kw))
     (summarizer_calls (new_calls init_state (snd (summarize (stub_env 1)
        \<lparr>req_text = Some ''a b'', req_length = Some ''short'', req_mode = None\<rparr> init_state))))
     = [preset_for ''short'']"
    using presets_used [of "''tiny''"
        "\<lparr>req_text = Some ''a b'', req_length = Some ''short'', req_mode = None\<rparr>" "''a b''"
        "stub_env 1" init_state "[0, 0]"] enc run [of "Some ''short''"]
    by (auto simp: map_eq_Cons_conv)
  have 2: "map (\<lambda>(t, kw, r). (min_length kw, max_length kw))
     (summarizer_calls (new_calls init_state (snd (summarize (stub_env 1)
        \<lparr>req_text = Some ''a b'', req_length = None, req_mode = None\<rparr> init_state))))
     = [(50, 100)]"
    using presets_used [of "''tiny''"
        "\<lparr>req_text = Some ''a b'', req_length = None, req_mode = None\<rparr>" "''a b''"
        "stub_env 1" init_state "[0, 0]"] enc run [of None]
    by (auto simp: map_eq_Cons_conv)
  have 3: "''tiny'' \<notin> {''short'', ''medium'', ''long''} \<and> preset_for ''tiny'' = (50, 100)"
    using presets_used [of "''tiny''"
        "\<lparr>req_text = Some ''a b'', req_length = None, req_mode = None\<rparr>" "''a b''"
        "stub_env 1" init_state "[0, 0]"]
    by simp
  show ?thesis
    using enc 1 2 3 by simp
qed

section \<open>Validation\<close>

text \<open>
  Claim C6. A request whose \<open>text\<close> field is missing or empty is answered with status 400
  and the body \<open>{ok: false, error: "Input text is required."}\<close>; the state is returned
  as it was: no record is stored and no collaborator is called.
\<close>

theorem empty_text_rejected:
  "req_text data = None \<or> req_text data = Some [] \<Longrightarrow>
   summarize env data st =
     ((400, [(''ok'', JBool False), (''error'', JStr ''Input text is required.'')]), st)"
  by (auto simp add: summarize_def)

theorem empty_text_rejected_witness:
  "req_text \<lparr>req_text = Some [], req_length = Some ''long'', req_mode = None\<rparr> = Some [] \<and>
   summarize (stub_env 1) \<lparr>req_text = Some [], req_length = Some ''long'', req_mode = None\<rparr>
       init_state =
     ((400, [(''ok'', JBool False), (''error'', JStr ''Input text is required.'')]), init_state)"
  using empty_text_rejected
    [of "\<lparr>req_text = Some [], req_length = Some ''long'', req_mode = None\<rparr>" "stub_env 1" init_state]
  by simp

section \<open>The mode\<close>

lemma pipeline_mode:
  "mode \<noteq> ''creative'' \<Longrightarrow>
   pipeline env t pmin pmax mode st = pipeline env t pmin pmax ''reliable'' st"
  by (simp add: pipeline_def summarize_combined_chunks_def
      cong: sum.case_cong prod.case_cong if_cong)

lemma try_body_mode:
  "mode \<noteq> ''creative'' \<Longrightarrow>
   try_body env t len mode st = try_body env t len ''reliable'' st"
  by (simp add: try_body_def pipeline_mode [of mode] cong: prod.case_cong)

lemma summarize_mode:
  assumes "m \<noteq> Some ''creative''"
  shows "summarize env (data\<lparr>req_mode := m\<rparr>) st =
         summarize env (data\<lparr>req_mode := Some ''reliable''\<rparr>) st"
proof (cases m)
  case None
  then show ?thesis by (simp add: summarize_def)
next
  case (Some x)
  with assms have "x \<noteq> ''creative''" by simp
  then show ?thesis
    using Some by (simp add: summarize_def Let_def try_body_mode [of x])
qed

lemma no_sampling:
  "mode \<noteq> ''creative'' \<Longrightarrow>
   \<not> do_sample (direct_kwargs pmax pmin mode) \<and> \<not> do_sample (first_pass_kwargs pmax pmin) \<and>
   \<not> do_sample (combined_kwargs pmax pmin mode)"
  by (simp add: direct_kwargs_def first_pass_kwargs_def combined_kwargs_def)

lemma handler_status:
  assumes "req_text data = Some t" "t \<noteq> []"
  shows "fst (fst (summarize env data st)) = 200 \<or> fst (fst (summarize env data st)) = 500"
  using summarize_shape [OF assms, of env st]
  apply (elim exE conjE)
  subgoal for pr st1 xs
    apply (cases pr)
     apply (simp add: error_response_def)
    subgoal for sn
      apply (cases sn)
      subgoal for s n
        apply (cases "fst (record_save env (new_record env t s st1) (world st1))")
         apply (simp_all add: error_response_def)
        done
      done
    done
  done


lemma handler_calls_empty:
  "req_text data = None \<or> req_text data = Some [] \<Longrightarrow>
   summarizer_calls (new_calls st (snd (summarize env data st))) = []"
  by (auto simp: summarize_def new_calls_def)

lemma handler_no_sampling:
  assumes "request_mode data \<noteq> ''creative''"
    and "(t', kw, r) \<in> set (summarizer_calls (new_calls st (snd (summarize env data st))))"
  shows "\<not> do_sample kw"
proof (cases "req_text data = None \<or> req_text data = Some []")
  case True
  then show ?thesis using assms(2) handler_calls_empty [of data st env] by simp
next
  case False
  then obtain t where t: "req_text data = Some t" "t \<noteq> []" by auto
  from assms(2) have "(t', kw, r) \<in> set (summarizer_calls (new_calls st (snd (pipeline env t
           (fst (preset_for (request_length data))) (snd (preset_for (request_length data)))
           (request_mode data) st))))"
    by (simp add: handler_calls [OF t])
  from pipeline_call_kwargs [OF this] show ?thesis
    using no_sampling [OF assms(1)] by auto
qed

text \<open>
  Claim C10. A request whose \<open>mode\<close> is anything but the string \<open>creative\<close> (another string,
  a misspelling, or no \<open>mode\<close> field at all) is answered as the same request with mode
  \<open>reliable\<close>: the response and the final state are the same. Every call of the summarizer
  for such a request has \<open>do_sample = False\<close>, on the direct path, for the chunks and
  for the recombination; at least one call is made when the tokenizer returns; and
  for a non-empty text the status is 200 or 500, never the 400 of a validation error.
\<close>

theorem unrecognized_mode:
  assumes "m \<noteq> Some ''creative''"
  shows "summarize env (data\<lparr>req_mode := m\<rparr>) st =
           summarize env (data\<lparr>req_mode := Some ''reliable''\<rparr>) st \<and>
         (\<forall>(t', kw, r) \<in> set (summarizer_calls
              (new_calls st (snd (summarize env (data\<lparr>req_mode := m\<rparr>) st)))). \<not> do_sample kw) \<and>
         (req_text data = Some t \<and> t \<noteq> [] \<longrightarrow>
            (fst (fst (summarize env (data\<lparr>req_mode := m\<rparr>) st)) = 200 \<or>
             fst (fst (summarize env (data\<lparr>req_mode := m\<rparr>) st)) = 500) \<and>
            (\<forall>toks. fst (tokenizer_encode env t (world st)) = Inr toks \<longrightarrow>
               summarizer_calls
                 (new_calls st (snd (summarize env (data\<lparr>req_mode := m\<rparr>) st))) \<noteq> []))"
proof -
  have mode: "request_mode (data\<lparr>req_mode := m\<rparr>) \<noteq> ''creative''"
    using assms by (cases m) (simp_all add: request_mode_def)
  have 1: "summarize env (data\<lparr>req_mode := m\<rparr>) st =
           summarize env (data\<lparr>req_mode := Some ''reliable''\<rparr>) st"
    by (rule summarize_mode [OF assms])
  have 2: "\<forall>(t', kw, r) \<in> set (summarizer_calls
              (new_calls st (snd (summarize env (data\<lparr>req_mode := m\<rparr>) st)))). \<not> do_sample kw"
    using handler_no_sampling [OF mode] by blast
  have 3: "(fst (fst (summarize env (data\<lparr>req_mode := m\<rparr>) st)) = 200 \<or>
             fst (fst (summarize env (data\<lparr>req_mode := m\<rparr>) st)) = 500) \<and>
            (\<forall>toks. fst (tokenizer_encode env t (world st)) = Inr toks \<longrightarrow>
               summarizer_calls
                 (new_calls st (snd (summarize env (data\<lparr>req_mode := m\<rparr>) st))) \<noteq> [])"
    if a: "req_text data = Some t" "t \<noteq> []"
  proof -
    have b: "req_text (data\<lparr>req_mode := m\<rparr>) = Some t" using a by simp
    show ?thesis
      using handler_status [OF b a(2), of env st] pipeline_calls_nonempty [of env t st]
      by (simp add: handler_calls [OF b a(2)])
  qed
  show ?thesis
    using 1 2 3 by blast
qed

theorem unrecognized_mode_witness:
  "Some ''Creative'' \<noteq> Some ''creative'' \<and>
   summarize sampling_env
       \<lparr>req_text = Some ''a b c d e'', req_length = None, req_mode = Some ''Creative''\<rparr> init_state =
     summarize sampling_env
       \<lparr>req_text = Some ''a b c d e'', req_length = None, req_mode = Some ''reliable''\<rparr> init_state \<and>
   map (\<lambda>(t, kw, r). do_sample kw)
     (summarizer_calls (new_calls init_state (snd (summarize sampling_env
        \<lparr>req_text = Some ''a b c d e'', req_length = None, req_mode = Some ''Creative''\<rparr>
        init_state)))) = [False] \<and>
   fst (fst (summarize sampling_env
        \<lparr>req_text = Some ''a b c d e'', req_length = None, req_mode = Some ''Creative''\<rparr>
        init_state)) = 200"
proof -
  have run: "map (\<lambda>(t, kw, r). t)
     (summarizer_calls (new_calls init_state (snd (summarize sampling_env
        \<lparr>req_text = Some ''a b c d e'', req_length = None, req_mode = Some ''Creative''\<rparr>
        init_state)))) = [''a b c d e''] \<and>
     fst (fst (summarize sampling_env
        \<lparr>req_text = Some ''a b c d e'', req_length = None, req_mode = Some ''Creative''\<rparr>
        init_state)) = 200"
    by code_simp
  show ?thesis
    using unrecognized_mode [of "Some ''Creative''" sampling_env
        "\<lparr>req_text = Some ''a b c d e'', req_length = None, req_mode = None\<rparr>" init_state
        "''a b c d e''"] run
    by (auto simp: map_eq_Cons_conv)
qed

text \<open>
  For contrast: with the mode \<open>creative\<close> the same request is answered with sampling,
  and the sampling summarizer gives another summary.
\<close>

lemma creative_mode_example:
  "map (\<lambda>(t, kw, r). (do_sample kw, r))
     (summarizer_calls (new_calls init_state (snd (summarize sampling_env
        \<lparr>req_text = Some ''a b c d e'', req_length = None, req_mode = Some ''creative''\<rparr>
        init_state)))) = [(True, Inr ''a b'')] \<and>
   map (\<lambda>(t, kw, r). (do_sample kw, r))
     (summarizer_calls (new_calls init_state (snd (summarize sampling_env
        \<lparr>req_text = Some ''a b c d e'', req_length = None, req_mode = Some ''Creative''\<rparr>
        init_state)))) = [(False, Inr ''a b c'')]"
  by code_simp

end
